theory Spec2Isabelle
  imports Complex_Main "HOL-Library.Word"
begin

section \<open>The 24-game solver of \<^verbatim>\<open>src/lib/solve_24.cpp\<close>\<close>

subsection \<open>Double arithmetic\<close>

text \<open>
  The solver computes on C++ \<^verbatim>\<open>double\<close> values. The operations it uses on them are
  taken as a parameter: a record holding \<^verbatim>\<open>+\<close>, \<^verbatim>\<open>*\<close>, \<^verbatim>\<open>-\<close>, \<^verbatim>\<open>/\<close>, \<^verbatim>\<open>fabs\<close>,
  \<^verbatim>\<open><\<close>, the literal \<^verbatim>\<open>1e-8\<close>, \<^verbatim>\<open>std::to_string\<close> and the conversion from \<^verbatim>\<open>int\<close>.
  Every theorem below that is stated for an arbitrary record \<open>A\<close> therefore holds for
  IEEE 754 binary64 arithmetic as well as for any other interpretation.
\<close>

record 'd arith =
  d_add :: "'d \<Rightarrow> 'd \<Rightarrow> 'd"
  d_mul :: "'d \<Rightarrow> 'd \<Rightarrow> 'd"
  d_sub :: "'d \<Rightarrow> 'd \<Rightarrow> 'd"
  d_div :: "'d \<Rightarrow> 'd \<Rightarrow> 'd"
  d_fabs :: "'d \<Rightarrow> 'd"
  d_less :: "'d \<Rightarrow> 'd \<Rightarrow> bool"
  d_eps :: "'d"
  to_string :: "'d \<Rightarrow> string"
  d_of_int :: "int \<Rightarrow> 'd"

text \<open>The test \<^verbatim>\<open>fabs(nums[0] - target) < 1e-8\<close> of the three base cases.\<close>

definition near_target :: "'d arith \<Rightarrow> 'd \<Rightarrow> 'd \<Rightarrow> bool" where
  "near_target A v target = d_less A (d_fabs A (d_sub A v target)) (d_eps A)"

subsection \<open>The loops shared by the three traversals\<close>

text \<open>
  \<^verbatim>\<open>for(int i = 0; i + 1 < nums.size(); ++i) for(int j = i + 1; j < nums.size(); ++j)\<close>:
  the position pairs in the order the two loops visit them. The counters are \<^verbatim>\<open>int\<close> and
  the bound is a \<^verbatim>\<open>size_t\<close>; on a vector of fewer than \<open>2\<^sup>3\<^sup>1\<close> elements the
  comparisons are those of the natural numbers.
\<close>

definition index_pairs :: "nat \<Rightarrow> (nat \<times> nat) list" where
  "index_pairs n =
     concat (map (\<lambda>i. map (\<lambda>j. (i, j)) [i + 1 ..< n]) (takeWhile (\<lambda>i. i + 1 < n) [0 ..< n]))"

text \<open>
  \<^verbatim>\<open>for(int k = 0; k < nums.size(); ++k) if(k != i && k != j) new_nums.push_back(nums[k]);\<close>
\<close>

definition new_nums :: "'d list \<Rightarrow> nat \<Rightarrow> nat \<Rightarrow> 'd list" where
  "new_nums nums i j = map (\<lambda>k. nums ! k) (filter (\<lambda>k. k \<noteq> i \<and> k \<noteq> j) [0 ..< length nums])"

text \<open>
  The six values tried for a pair \<open>a = nums[i]\<close>, \<open>b = nums[j]\<close>, in the order of the
  source: \<open>a + b\<close>, \<open>a * b\<close>, \<open>a - b\<close>, \<open>a / b\<close>, \<open>b - a\<close>, \<open>b / a\<close>.
\<close>

definition results :: "'d arith \<Rightarrow> 'd \<Rightarrow> 'd \<Rightarrow> 'd list" where
  "results A a b =
     [d_add A a b, d_mul A a b, d_sub A a b, d_div A a b, d_sub A b a, d_div A b a]"

text \<open>
  The same six values, each with the four tokens that \<^verbatim>\<open>output\<close> holds after
  \<^verbatim>\<open>prev_ops\<close> at the moment of the recursive call: \<^verbatim>\<open>val1\<close>, \<^verbatim>\<open>val2\<close>, the result and
  the operator for the first four, \<^verbatim>\<open>val2\<close>, \<^verbatim>\<open>val1\<close>, the result and the operator for
  the two reversed operations (the source pops four tokens and pushes \<^verbatim>\<open>val2\<close>,
  \<^verbatim>\<open>val1\<close> before them).
\<close>

definition attempts :: "'d arith \<Rightarrow> 'd \<Rightarrow> 'd \<Rightarrow> ('d \<times> string list) list" where
  "attempts A a b =
     (let val1 = to_string A a; val2 = to_string A b in
      [(d_add A a b, [val1, val2, to_string A (d_add A a b), ''+'']),
       (d_mul A a b, [val1, val2, to_string A (d_mul A a b), ''*'']),
       (d_sub A a b, [val1, val2, to_string A (d_sub A a b), ''-'']),
       (d_div A a b, [val1, val2, to_string A (d_div A a b), ''/'']),
       (d_sub A b a, [val2, val1, to_string A (d_sub A b a), ''-'']),
       (d_div A b a, [val2, val1, to_string A (d_div A b a), ''/''])])"

text \<open>
  A \<^verbatim>\<open>for\<close> loop whose body may \<^verbatim>\<open>return true\<close>: the body runs on each element in
  turn, threading the state, and the loop stops at the first body that returns true.
\<close>

fun until_true :: "('a \<Rightarrow> 's \<Rightarrow> bool \<times> 's) \<Rightarrow> 'a list \<Rightarrow> 's \<Rightarrow> bool \<times> 's" where
  "until_true body [] s = (False, s)"
| "until_true body (x # xs) s =
     (let (r, s') = body x s in if r then (True, s') else until_true body xs s')"

lemma until_true_cong [fundef_cong]:
  "xs = ys \<Longrightarrow> s = t \<Longrightarrow> (\<And>x u. x \<in> set ys \<Longrightarrow> f x u = g x u)
   \<Longrightarrow> until_true f xs s = until_true g ys t"
proof (induction ys arbitrary: xs s t)
  case Nil
  then show ?case by simp
next
  case (Cons y ys)
  have "until_true f ys u = until_true g ys u" for u
    by (rule Cons.IH) (simp_all add: Cons.prems)
  then show ?case
    using Cons.prems by (simp add: Let_def split: prod.splits)
qed

lemma index_pairs_bounds: "(i, j) \<in> set (index_pairs n) \<Longrightarrow> i < j \<and> j < n"
  by (auto simp: index_pairs_def dest: set_takeWhileD)

lemma length_new_nums:
  assumes "i < j" and "j < length nums"
  shows "length (new_nums nums i j) = length nums - 2"
proof -
  let ?ks = "filter (\<lambda>k. k \<noteq> i \<and> k \<noteq> j) [0 ..< length nums]"
  have "set ?ks = {..< length nums} - {i, j}"
    by auto
  moreover have "card ({..< length nums} - {i, j}) = length nums - 2"
    using assms by (subst card_Diff_subset) auto
  moreover have "card (set ?ks) = length ?ks"
    by (rule distinct_card) simp
  ultimately show ?thesis
    by (simp add: new_nums_def)
qed

subsection \<open>The existence check\<close>

function solution_exists :: "'d arith \<Rightarrow> 'd list \<Rightarrow> 'd \<Rightarrow> bool" where
  "solution_exists A nums target =
     (if length nums = 1 then near_target A (nums ! 0) target
      else list_ex (\<lambda>(i, j).
             list_ex (\<lambda>val. solution_exists A (new_nums nums i j @ [val]) target)
               (results A (nums ! i) (nums ! j)))
           (index_pairs (length nums)))"
  by pat_completeness auto
termination
  by (relation "measure (\<lambda>(A, nums, target). length nums)")
     (auto dest!: index_pairs_bounds simp: length_new_nums)

subsection \<open>The existence check with a bound on the recursion depth\<close>

text \<open>
  \<^verbatim>\<open>solution_exists\<close> once more, with a budget \<open>d\<close> of nested recursive calls: a call
  made when the budget is used up yields \<open>None\<close>, which the loops pass on.
\<close>

fun any_within :: "('a \<Rightarrow> bool option) \<Rightarrow> 'a list \<Rightarrow> bool option" where
  "any_within f [] = Some False"
| "any_within f (x # xs) =
     (case f x of None \<Rightarrow> None | Some r \<Rightarrow> if r then Some True else any_within f xs)"

fun solution_exists_within :: "nat \<Rightarrow> 'd arith \<Rightarrow> 'd list \<Rightarrow> 'd \<Rightarrow> bool option" where
  "solution_exists_within 0 A nums target =
     (if length nums = 1 then Some (near_target A (nums ! 0) target)
      else any_within (\<lambda>(i, j).
             any_within (\<lambda>val. None) (results A (nums ! i) (nums ! j)))
           (index_pairs (length nums)))"
| "solution_exists_within (Suc d) A nums target =
     (if length nums = 1 then Some (near_target A (nums ! 0) target)
      else any_within (\<lambda>(i, j).
             any_within (\<lambda>val. solution_exists_within d A (new_nums nums i j @ [val]) target)
               (results A (nums ! i) (nums ! j)))
           (index_pairs (length nums)))"

subsection \<open>The first-solution search\<close>

text \<open>
  \<^verbatim>\<open>solve_first\<close> returns a \<^verbatim>\<open>bool\<close> and assigns the member \<^verbatim>\<open>first_solution\<close> in its
  base case. The member is the state threaded through the model: the function takes its
  current value \<open>fs\<close> and returns the result together with its new value. (The base case
  also prints \<^verbatim>\<open>prev_ops\<close> on standard output, which is not modelled.)
\<close>

function solve_first ::
  "'d arith \<Rightarrow> 'd list \<Rightarrow> string list \<Rightarrow> 'd \<Rightarrow> string list \<Rightarrow> bool \<times> string list" where
  "solve_first A nums prev_ops target fs =
     (if length nums = 1 then
        (if near_target A (nums ! 0) target then (True, prev_ops) else (False, fs))
      else until_true (\<lambda>(i, j).
             until_true (\<lambda>(val, output) s.
                 solve_first A (new_nums nums i j @ [val]) (prev_ops @ output) target s)
               (attempts A (nums ! i) (nums ! j)))
           (index_pairs (length nums)) fs)"
  by pat_completeness auto
termination
  by (relation "measure (\<lambda>(A, nums, prev_ops, target, fs). length nums)")
     (auto dest!: index_pairs_bounds simp: length_new_nums)

subsection \<open>The all-solutions search\<close>

text \<open>
  \<^verbatim>\<open>solve_all\<close> returns nothing and appends to the member \<^verbatim>\<open>solutions\<close>, the state
  threaded through the model. Its base case does not return: the two loops follow it
  (and run no iteration on a sequence of length one).
\<close>

function solve_all ::
  "'d arith \<Rightarrow> 'd list \<Rightarrow> string list \<Rightarrow> 'd \<Rightarrow> string list list \<Rightarrow> string list list" where
  "solve_all A nums prev_ops target sols =
     fold (\<lambda>(i, j).
         fold (\<lambda>(val, output) s.
             solve_all A (new_nums nums i j @ [val]) (prev_ops @ output) target s)
           (attempts A (nums ! i) (nums ! j)))
       (index_pairs (length nums))
       (if length nums = 1 \<and> near_target A (nums ! 0) target then sols @ [prev_ops] else sols)"
  by pat_completeness auto
termination
  by (relation "measure (\<lambda>(A, nums, prev_ops, target, sols). length nums)")
     (auto dest!: index_pairs_bounds simp: length_new_nums)

subsection \<open>The standalone solver of \<^verbatim>\<open>src/solve_24.cpp\<close>\<close>

text \<open>
  \<^verbatim>\<open>Solution::solve\<close> of the second file is \<^verbatim>\<open>solve_first\<close> without the assignment to a
  member: it returns a \<^verbatim>\<open>bool\<close> (and prints the trace). \<^verbatim>\<open>judgePoint24\<close> is its entry.
\<close>

function solve :: "'d arith \<Rightarrow> 'd list \<Rightarrow> string list \<Rightarrow> 'd \<Rightarrow> bool" where
  "solve A nums prev_ops target =
     (if length nums = 1 then near_target A (nums ! 0) target
      else list_ex (\<lambda>(i, j).
             list_ex (\<lambda>(val, output).
                 solve A (new_nums nums i j @ [val]) (prev_ops @ output) target)
               (attempts A (nums ! i) (nums ! j)))
           (index_pairs (length nums)))"
  by pat_completeness auto
termination
  by (relation "measure (\<lambda>(A, nums, prev_ops, target). length nums)")
     (auto dest!: index_pairs_bounds simp: length_new_nums)

definition judgePoint24 :: "'d arith \<Rightarrow> 32 word list \<Rightarrow> 'd \<Rightarrow> bool" where
  "judgePoint24 A nums target = solve A (map (\<lambda>n. d_of_int A (sint n)) nums) [] target"

subsection \<open>The class \<^verbatim>\<open>Solution\<close>\<close>

record 'd Solution =
  solutions :: "string list list"
  first_solution :: "string list"
  max_generated :: "32 word"
  numbers :: "32 word list"
  target :: "'d"

text \<open>The three constructors; the vector members start empty.\<close>

definition Solution1 :: "'d arith \<Rightarrow> 32 word list \<Rightarrow> 'd Solution" where
  "Solution1 A arg1 =
     \<lparr>solutions = [], first_solution = [], max_generated = 1024, numbers = arg1,
      target = d_of_int A 24\<rparr>"

definition Solution2 :: "32 word list \<Rightarrow> 'd \<Rightarrow> 'd Solution" where
  "Solution2 arg1 arg2 =
     \<lparr>solutions = [], first_solution = [], max_generated = 1024, numbers = arg1,
      target = arg2\<rparr>"

definition Solution3 :: "32 word list \<Rightarrow> 'd \<Rightarrow> 32 word \<Rightarrow> 'd Solution" where
  "Solution3 arg1 arg2 arg3 =
     \<lparr>solutions = [], first_solution = [], max_generated = arg3, numbers = arg1,
      target = arg2\<rparr>"

definition get_all_solutions :: "'d Solution \<Rightarrow> string list list" where
  "get_all_solutions S = solutions S"

definition get_first_solution :: "'d Solution \<Rightarrow> string list" where
  "get_first_solution S = first_solution S"

text \<open>\<^verbatim>\<open>vector<double> values(numbers.begin(), numbers.end());\<close>\<close>

definition values_of :: "'d arith \<Rightarrow> 'd Solution \<Rightarrow> 'd list" where
  "values_of A S = map (\<lambda>n. d_of_int A (sint n)) (numbers S)"

definition is_valid_input :: "'d arith \<Rightarrow> 'd Solution \<Rightarrow> bool" where
  "is_valid_input A S = solution_exists A (values_of A S) (target S)"

definition find_first_solution :: "'d arith \<Rightarrow> 'd Solution \<Rightarrow> bool \<times> 'd Solution" where
  "find_first_solution A S =
     (let (r, fs) = solve_first A (values_of A S) [] (target S) (first_solution S)
      in (r, S\<lparr>first_solution := fs\<rparr>))"

text \<open>
  The first statement of \<^verbatim>\<open>find_all_solutions\<close> is \<^verbatim>\<open>solutions;\<close>, an expression with
  no effect: the traversal appends to whatever the member holds.
\<close>

definition find_all_solutions :: "'d arith \<Rightarrow> 'd Solution \<Rightarrow> 'd Solution" where
  "find_all_solutions A S =
     S\<lparr>solutions := solve_all A (values_of A S) [] (target S) (solutions S)\<rparr>"

subsection \<open>An exact interpretation of the arithmetic\<close>

text \<open>
  To run the traversals on concrete inputs the arithmetic is interpreted over the
  rationals extended by the special values of IEEE 754: finite operations are exact,
  division by zero gives an infinity or NaN, the special values propagate as in IEEE 754,
  and every comparison with NaN is false. \<^verbatim>\<open>std::to_string\<close> is \<^verbatim>\<open>%f\<close>: the exact value
  rounded to six digits after the decimal point.

  This interpretation is not binary64: it has no rounding and no overflow, one zero (the
  code prints \<^verbatim>\<open>-0.000000\<close> for a negative zero) and one NaN (the code may print
  \<^verbatim>\<open>-nan\<close>), and it rounds the exact value where \<^verbatim>\<open>%f\<close> rounds the stored double. It can
  answer differently from the code where rounding decides the test against \<^verbatim>\<open>1e-8\<close> or
  a printed digit. No theorem stated for an arbitrary \<open>A\<close> depends on it; it is used only
  in closed theorems, on inputs where the facts stated are the same in binary64.
\<close>

datatype xval = Fin rat | PInf | NInf | NaN

fun x_neg :: "xval \<Rightarrow> xval" where
  "x_neg (Fin a) = Fin (- a)"
| "x_neg PInf = NInf"
| "x_neg NInf = PInf"
| "x_neg NaN = NaN"

fun x_add :: "xval \<Rightarrow> xval \<Rightarrow> xval" where
  "x_add (Fin a) (Fin b) = Fin (a + b)"
| "x_add NaN _ = NaN"
| "x_add _ NaN = NaN"
| "x_add PInf NInf = NaN"
| "x_add NInf PInf = NaN"
| "x_add PInf _ = PInf"
| "x_add NInf _ = NInf"
| "x_add _ PInf = PInf"
| "x_add _ NInf = NInf"

definition x_sub :: "xval \<Rightarrow> xval \<Rightarrow> xval" where
  "x_sub a b = x_add a (x_neg b)"

text \<open>An infinity of the given sign, and the sign of a value.\<close>

fun x_signed_inf :: "bool \<Rightarrow> xval" where
  "x_signed_inf negative = (if negative then NInf else PInf)"

fun x_negative :: "xval \<Rightarrow> bool" where
  "x_negative (Fin a) = (a < 0)"
| "x_negative NInf = True"
| "x_negative _ = False"

fun x_mul :: "xval \<Rightarrow> xval \<Rightarrow> xval" where
  "x_mul (Fin a) (Fin b) = Fin (a * b)"
| "x_mul NaN _ = NaN"
| "x_mul _ NaN = NaN"
| "x_mul a b =
     (if a = Fin 0 \<or> b = Fin 0 then NaN else x_signed_inf (x_negative a \<noteq> x_negative b))"

fun x_div :: "xval \<Rightarrow> xval \<Rightarrow> xval" where
  "x_div (Fin a) (Fin b) =
     (if b \<noteq> 0 then Fin (a / b) else if a = 0 then NaN else x_signed_inf (a < 0))"
| "x_div NaN _ = NaN"
| "x_div _ NaN = NaN"
| "x_div (Fin a) _ = Fin 0"
| "x_div a (Fin b) = x_signed_inf (x_negative a \<noteq> (b < 0))"
| "x_div _ _ = NaN"

fun x_fabs :: "xval \<Rightarrow> xval" where
  "x_fabs (Fin a) = Fin \<bar>a\<bar>"
| "x_fabs NaN = NaN"
| "x_fabs _ = PInf"

fun x_less :: "xval \<Rightarrow> xval \<Rightarrow> bool" where
  "x_less (Fin a) (Fin b) = (a < b)"
| "x_less NaN _ = False"
| "x_less _ NaN = False"
| "x_less NInf b = (b \<noteq> NInf)"
| "x_less a PInf = (a \<noteq> PInf)"
| "x_less _ _ = False"

text \<open>The decimal digits of a non-negative integer.\<close>

function digits :: "int \<Rightarrow> string" where
  "digits n =
     (if n < 10 then [''0123456789'' ! nat n]
      else digits (n div 10) @ [''0123456789'' ! nat (n mod 10)])"
  by pat_completeness auto
termination
  by (relation "measure nat") auto

declare digits.simps [simp del]

text \<open>Rounding a non-negative rational to the nearest integer, a tie to the even one.\<close>

definition round_even :: "rat \<Rightarrow> int" where
  "round_even q =
     (let (n, d) = quotient_of q; f = n div d; r = 2 * (n mod d) in
      if r < d then f else if d < r then f + 1 else if even f then f else f + 1)"

definition x_to_string :: "xval \<Rightarrow> string" where
  "x_to_string x =
     (case x of
        Fin q \<Rightarrow>
          (let m = round_even (\<bar>q\<bar> * 1000000); frac = digits (m mod 1000000) in
           (if q < 0 then ''-'' else []) @ digits (m div 1000000) @ ''.''
             @ replicate (6 - length frac) (CHR ''0'') @ frac)
      | PInf \<Rightarrow> ''inf''
      | NInf \<Rightarrow> ''-inf''
      | NaN \<Rightarrow> ''nan'')"

definition exact :: "xval arith" where
  "exact =
     \<lparr>d_add = x_add, d_mul = x_mul, d_sub = x_sub, d_div = x_div, d_fabs = x_fabs,
      d_less = x_less, d_eps = Fin (1 / 100000000), to_string = x_to_string,
      d_of_int = (\<lambda>n. Fin (of_int n))\<rparr>"

subsection \<open>The enumeration order of the specification\<close>

text \<open>
  The specification names six operations on an ordered pair \<open>(a, b)\<close> taken at positions
  \<open>i < j\<close>, tried in this order, and enumerates the position pairs with \<open>i\<close> ascending
  in the outer loop and \<open>j\<close> ascending in the inner one. The definitions of this
  subsection follow its words; they are compared with the source's traversals below.
\<close>

datatype operation =
  Add | Multiply | SubtractForward | DivideForward | SubtractReverse | DivideReverse

definition operations :: "operation list" where
  "operations =
     [Add, Multiply, SubtractForward, DivideForward, SubtractReverse, DivideReverse]"

fun apply_operation :: "'d arith \<Rightarrow> operation \<Rightarrow> 'd \<Rightarrow> 'd \<Rightarrow> 'd" where
  "apply_operation A Add a b = d_add A a b"
| "apply_operation A Multiply a b = d_mul A a b"
| "apply_operation A SubtractForward a b = d_sub A a b"
| "apply_operation A DivideForward a b = d_div A a b"
| "apply_operation A SubtractReverse a b = d_sub A b a"
| "apply_operation A DivideReverse a b = d_div A b a"

fun symbol :: "operation \<Rightarrow> string" where
  "symbol Add = ''+''"
| "symbol Multiply = ''*''"
| "symbol SubtractForward = ''-''"
| "symbol DivideForward = ''/''"
| "symbol SubtractReverse = ''-''"
| "symbol DivideReverse = ''/''"

text \<open>The two operands in the order the operation consumes them.\<close>

fun operands :: "operation \<Rightarrow> 'd \<Rightarrow> 'd \<Rightarrow> 'd \<times> 'd" where
  "operands SubtractReverse a b = (b, a)"
| "operands DivideReverse a b = (b, a)"
| "operands _ a b = (a, b)"

text \<open>The four tokens of one reduction step: operand, operand, result, operator symbol.\<close>

definition step_tokens :: "'d arith \<Rightarrow> operation \<Rightarrow> 'd \<Rightarrow> 'd \<Rightarrow> string list" where
  "step_tokens A op a b =
     [to_string A (fst (operands op a b)), to_string A (snd (operands op a b)),
      to_string A (apply_operation A op a b), symbol op]"

definition position_pairs :: "nat \<Rightarrow> (nat \<times> nat) list" where
  "position_pairs n = concat (map (\<lambda>i. map (\<lambda>j. (i, j)) [i + 1 ..< n]) [0 ..< n])"

lemma position_pairs_bounds: "(i, j) \<in> set (position_pairs n) \<Longrightarrow> i < j \<and> j < n"
  by (auto simp: position_pairs_def)

text \<open>
  Every complete reduction path from \<open>nums\<close>, in the enumeration order, as the pair of
  its trace (after the tokens \<open>prev\<close> already recorded) and the single value it ends in.
\<close>

function reduction_paths ::
  "'d arith \<Rightarrow> 'd list \<Rightarrow> string list \<Rightarrow> (string list \<times> 'd) list" where
  "reduction_paths A nums prev =
     (if length nums = 1 then [(prev, nums ! 0)]
      else concat (map (\<lambda>(i, j).
             concat (map (\<lambda>op.
                 reduction_paths A
                   (new_nums nums i j @ [apply_operation A op (nums ! i) (nums ! j)])
                   (prev @ step_tokens A op (nums ! i) (nums ! j)))
               operations))
           (position_pairs (length nums))))"
  by pat_completeness auto
termination
  by (relation "measure (\<lambda>(A, nums, prev). length nums)")
     (auto dest!: position_pairs_bounds simp: length_new_nums)

text \<open>The traces of the paths that end within the tolerance of the target, in order.\<close>

definition successes :: "'d arith \<Rightarrow> 'd list \<Rightarrow> string list \<Rightarrow> 'd \<Rightarrow> string list list" where
  "successes A nums prev t =
     map fst (filter (\<lambda>(tr, v). near_target A v t) (reduction_paths A nums prev))"

subsection \<open>Replaying a trace\<close>





declare solution_exists.simps [simp del] solve_first.simps [simp del] solve_all.simps [simp del]
  solve.simps [simp del] reduction_paths.simps [simp del]

section \<open>The traversals and the enumeration\<close>

subsection \<open>The source's loops enumerate the specification's order\<close>

lemma index_pairs_eq: "index_pairs n = position_pairs n"
proof (cases n)
  case 0
  then show ?thesis by (simp add: index_pairs_def position_pairs_def)
next
  case (Suc m)
  have "takeWhile (\<lambda>i. i + 1 < n) ([0 ..< m] @ [m]) = [0 ..< m] @ takeWhile (\<lambda>i. i + 1 < n) [m]"
    using Suc by (intro takeWhile_append2) auto
  then have "takeWhile (\<lambda>i. i + 1 < n) [0 ..< n] = [0 ..< m]"
    using Suc by simp
  then show ?thesis
    using Suc by (simp add: index_pairs_def position_pairs_def)
qed

lemma index_pairs_small: "n < 2 \<Longrightarrow> index_pairs n = []"
  by (cases n) (auto simp: index_pairs_def)

lemma attempts_operations:
  "attempts A a b = map (\<lambda>op. (apply_operation A op a b, step_tokens A op a b)) operations"
  by (simp add: operations_def attempts_def step_tokens_def Let_def)

lemma results_attempts: "results A a b = map fst (attempts A a b)"
  by (simp add: results_def attempts_def Let_def)

lemma successes_rec:
  "successes A nums prev t =
     (if length nums = 1 then (if near_target A (nums ! 0) t then [prev] else [])
      else concat (map (\<lambda>(i, j).
             concat (map (\<lambda>(val, output).
                 successes A (new_nums nums i j @ [val]) (prev @ output) t)
               (attempts A (nums ! i) (nums ! j))))
           (index_pairs (length nums))))"
  unfolding successes_def
  by (subst reduction_paths.simps)
     (simp add: index_pairs_eq attempts_operations map_concat filter_concat comp_def
        case_prod_unfold)

lemma fold_append:
  "(\<And>x s. x \<in> set xs \<Longrightarrow> f x s = s @ g x) \<Longrightarrow> fold f xs s = s @ concat (map g xs)"
  by (induction xs arbitrary: s) simp_all

lemma until_true_first:
  "(\<And>x s. x \<in> set xs \<Longrightarrow> f x s = (case g x of [] \<Rightarrow> (False, s) | y # _ \<Rightarrow> (True, y)))
   \<Longrightarrow> until_true f xs s = (case concat (map g xs) of [] \<Rightarrow> (False, s) | y # _ \<Rightarrow> (True, y))"
proof (induction xs arbitrary: s)
  case Nil
  then show ?case by simp
next
  case (Cons a xs)
  have head: "f a s = (case g a of [] \<Rightarrow> (False, s) | y # _ \<Rightarrow> (True, y))"
    by (rule Cons.prems) simp
  have tail: "until_true f xs s = (case concat (map g xs) of [] \<Rightarrow> (False, s) | y # _ \<Rightarrow> (True, y))"
    by (rule Cons.IH) (simp add: Cons.prems)
  show ?case
    by (cases "g a") (simp_all add: head tail)
qed

lemma list_ex_concat:
  "(\<And>x. x \<in> set xs \<Longrightarrow> f x = (g x \<noteq> [])) \<Longrightarrow> list_ex f xs = (concat (map g xs) \<noteq> [])"
  by (induction xs) auto


lemma solve_all_successes:
  "solve_all A nums prev t sols = sols @ successes A nums prev t"
proof (induction A nums prev t sols rule: solve_all.induct)
  case (1 A nums prev t sols)
  let ?inner = "\<lambda>i j. concat (map (\<lambda>(val, output).
      successes A (new_nums nums i j @ [val]) (prev @ output) t) (attempts A (nums ! i) (nums ! j)))"
  have inner: "fold (\<lambda>(val, output) s.
        solve_all A (new_nums nums i j @ [val]) (prev @ output) t s)
      (attempts A (nums ! i) (nums ! j)) s = s @ ?inner i j"
    if "(i, j) \<in> set (index_pairs (length nums))" for i j s
    by (rule fold_append) (auto simp: "1.IH" [OF that])
  have outer: "fold (\<lambda>(i, j). fold (\<lambda>(val, output) s.
        solve_all A (new_nums nums i j @ [val]) (prev @ output) t s)
      (attempts A (nums ! i) (nums ! j))) (index_pairs (length nums)) s
      = s @ concat (map (\<lambda>(i, j). ?inner i j) (index_pairs (length nums)))" for s
    by (rule fold_append) (auto simp: inner)
  show ?case
  proof (cases "length nums = 1")
    case True
    then show ?thesis
      by (subst solve_all.simps, subst successes_rec) (simp add: index_pairs_small)
  next
    case False
    then show ?thesis
      by (subst solve_all.simps, subst successes_rec) (simp add: outer)
  qed
qed

lemma solve_first_successes:
  "solve_first A nums prev t fs =
     (case successes A nums prev t of [] \<Rightarrow> (False, fs) | tr # _ \<Rightarrow> (True, tr))"
proof (induction A nums prev t fs rule: solve_first.induct)
  case (1 A nums prev t fs)
  let ?inner = "\<lambda>i j. concat (map (\<lambda>(val, output).
      successes A (new_nums nums i j @ [val]) (prev @ output) t) (attempts A (nums ! i) (nums ! j)))"
  show ?case
  proof (cases "length nums = 1")
    case True
    then show ?thesis
      by (subst solve_first.simps, subst successes_rec) simp
  next
    case False
    have inner: "until_true (\<lambda>(val, output) s.
          solve_first A (new_nums nums i j @ [val]) (prev @ output) t s)
        (attempts A (nums ! i) (nums ! j)) s
        = (case ?inner i j of [] \<Rightarrow> (False, s) | tr # _ \<Rightarrow> (True, tr))"
      if "(i, j) \<in> set (index_pairs (length nums))" for i j s
      by (rule until_true_first) (auto simp: "1.IH" [OF False that])
    have outer: "until_true (\<lambda>(i, j). until_true (\<lambda>(val, output) s.
          solve_first A (new_nums nums i j @ [val]) (prev @ output) t s)
        (attempts A (nums ! i) (nums ! j))) (index_pairs (length nums)) s
        = (case concat (map (\<lambda>(i, j). ?inner i j) (index_pairs (length nums))) of
             [] \<Rightarrow> (False, s) | tr # _ \<Rightarrow> (True, tr))" for s
      by (rule until_true_first) (auto simp: inner)
    from False show ?thesis
      by (subst solve_first.simps, subst successes_rec) (simp add: outer)
  qed
qed

lemma solution_exists_successes:
  "solution_exists A nums t = (successes A nums prev t \<noteq> [])"
proof (induction A nums t arbitrary: prev rule: solution_exists.induct)
  case (1 A nums t)
  let ?inner = "\<lambda>i j. concat (map (\<lambda>(val, output).
      successes A (new_nums nums i j @ [val]) (prev @ output) t) (attempts A (nums ! i) (nums ! j)))"
  show ?case
  proof (cases "length nums = 1")
    case True
    then show ?thesis
      by (subst solution_exists.simps, subst successes_rec) simp
  next
    case False
    have inner: "list_ex (\<lambda>val. solution_exists A (new_nums nums i j @ [val]) t)
        (results A (nums ! i) (nums ! j)) = (?inner i j \<noteq> [])"
      if "(i, j) \<in> set (index_pairs (length nums))" for i j
    proof -
      have "list_ex (\<lambda>val. solution_exists A (new_nums nums i j @ [val]) t)
          (results A (nums ! i) (nums ! j))
        = list_ex (\<lambda>(val, output). solution_exists A (new_nums nums i j @ [val]) t)
          (attempts A (nums ! i) (nums ! j))"
        by (simp add: results_attempts list_ex_iff case_prod_unfold)
      also have "\<dots> = (?inner i j \<noteq> [])"
      proof (rule list_ex_concat)
        fix x assume x: "x \<in> set (attempts A (nums ! i) (nums ! j))"
        then have "fst x \<in> set (results A (nums ! i) (nums ! j))"
          by (simp add: results_attempts)
        from "1.IH" [OF False that refl this, of "prev @ snd x"]
        show "(case x of (val, output) \<Rightarrow> solution_exists A (new_nums nums i j @ [val]) t)
            = ((case x of (val, output) \<Rightarrow>
                 successes A (new_nums nums i j @ [val]) (prev @ output) t) \<noteq> [])"
          by (simp add: case_prod_unfold)
      qed
      finally show ?thesis .
    qed
    have outer: "list_ex (\<lambda>(i, j). list_ex (\<lambda>val.
          solution_exists A (new_nums nums i j @ [val]) t) (results A (nums ! i) (nums ! j)))
        (index_pairs (length nums))
        = (concat (map (\<lambda>(i, j). ?inner i j) (index_pairs (length nums))) \<noteq> [])"
      by (rule list_ex_concat) (auto simp: inner)
    from False show ?thesis
      by (subst solution_exists.simps, subst successes_rec) (simp add: outer)
  qed
qed

subsection \<open>The structure of a path's trace\<close>

lemma reduction_paths_cases:
  assumes "(tr, v) \<in> set (reduction_paths A nums prev)"
  obtains (single) "length nums = 1" "tr = prev" "v = nums ! 0"
  | (step) i j op where "length nums \<noteq> 1" "(i, j) \<in> set (position_pairs (length nums))"
      "op \<in> set operations"
      "(tr, v) \<in> set (reduction_paths A
          (new_nums nums i j @ [apply_operation A op (nums ! i) (nums ! j)])
          (prev @ step_tokens A op (nums ! i) (nums ! j)))"
  using assms by (subst (asm) reduction_paths.simps) (auto split: if_splits)

lemma reduction_paths_steps:
  "(tr, v) \<in> set (reduction_paths A nums prev) \<Longrightarrow>
   \<exists>steps. length steps = length nums - 1 \<and>
     tr = prev @ concat (map (\<lambda>(op, a, b). step_tokens A op a b) steps)"
proof (induction A nums prev arbitrary: tr v rule: reduction_paths.induct)
  case (1 A nums prev)
  from "1.prems" show ?case
  proof (cases rule: reduction_paths_cases)
    case single
    then show ?thesis by simp
  next
    case (step i j op)
    from "1.IH" [OF step(1) step(2) refl step(3) step(4)]
    obtain steps where steps: "length steps = length nums - 2"
      "tr = (prev @ step_tokens A op (nums ! i) (nums ! j))
          @ concat (map (\<lambda>(op, a, b). step_tokens A op a b) steps)"
      using position_pairs_bounds [OF step(2)] by (auto simp: length_new_nums)
    let ?steps = "(op, nums ! i, nums ! j) # steps"
    have "length ?steps = length nums - 1"
      using steps(1) position_pairs_bounds [OF step(2)] by auto
    moreover have "tr = prev @ concat (map (\<lambda>(op, a, b). step_tokens A op a b) ?steps)"
      using steps(2) by simp
    ultimately show ?thesis by blast
  qed
qed






lemma successes_paths:
  "tr \<in> set (successes A nums prev t) \<longleftrightarrow>
   (\<exists>v. (tr, v) \<in> set (reduction_paths A nums prev) \<and> near_target A v t)"
  by (auto simp: successes_def image_iff)

subsection \<open>Returned traces and the recursion depth\<close>

lemma trace_is_success:
  assumes "solve_first A nums prev t fs = (True, tr) \<or> tr \<in> set (solve_all A nums prev t [])"
  shows "tr \<in> set (successes A nums prev t)"
  using assms
  by (auto simp: solve_first_successes solve_all_successes split: list.splits)

lemma length_concat_steps:
  "length (concat (map (\<lambda>(op, a, b). step_tokens A op a b) steps)) = 4 * length steps"
  by (induction steps) (auto simp: step_tokens_def)

lemma find_filter:
  "List.find P xs = (case filter P xs of [] \<Rightarrow> None | x # _ \<Rightarrow> Some x)"
  by (induction xs) auto

lemma any_within_Some:
  "(\<And>x. x \<in> set xs \<Longrightarrow> f x = Some (g x)) \<Longrightarrow> any_within f xs = Some (list_ex g xs)"
  by (induction xs) auto

lemma length_recursive_argument:
  "(i, j) \<in> set (index_pairs (length nums)) \<Longrightarrow>
   length (new_nums nums i j @ [val]) = length nums - 1"
  by (auto dest!: index_pairs_bounds simp: length_new_nums)

lemma within_enough:
  "length nums - 1 \<le> d \<Longrightarrow>
   solution_exists_within d A nums t = Some (solution_exists A nums t)"
proof (induction d arbitrary: nums)
  case 0
  then have "length nums = 1 \<or> index_pairs (length nums) = []"
    by (auto simp: index_pairs_small)
  then show ?case
    by (subst solution_exists.simps) auto
next
  case (Suc d)
  show ?case
  proof (cases "length nums = 1")
    case True
    then show ?thesis
      by (subst solution_exists.simps) simp
  next
    case False
    have call: "solution_exists_within d A (new_nums nums i j @ [val]) t
        = Some (solution_exists A (new_nums nums i j @ [val]) t)"
      if "(i, j) \<in> set (index_pairs (length nums))" for i j val
      using Suc.prems length_recursive_argument [OF that, of val]
      by (intro Suc.IH) simp
    have inner: "any_within (\<lambda>val. solution_exists_within d A (new_nums nums i j @ [val]) t)
          (results A (nums ! i) (nums ! j))
        = Some (list_ex (\<lambda>val. solution_exists A (new_nums nums i j @ [val]) t)
          (results A (nums ! i) (nums ! j)))"
      if "(i, j) \<in> set (index_pairs (length nums))" for i j
      by (rule any_within_Some) (simp add: call [OF that])
    have "any_within (\<lambda>(i, j). any_within (\<lambda>val.
            solution_exists_within d A (new_nums nums i j @ [val]) t)
          (results A (nums ! i) (nums ! j))) (index_pairs (length nums))
        = Some (list_ex (\<lambda>(i, j). list_ex (\<lambda>val.
            solution_exists A (new_nums nums i j @ [val]) t)
          (results A (nums ! i) (nums ! j))) (index_pairs (length nums)))"
      by (rule any_within_Some) (auto simp: inner)
    with False show ?thesis
      by (subst solution_exists.simps) simp
  qed
qed

lemma index_pairs_first: "2 \<le> n \<Longrightarrow> \<exists>rest. index_pairs n = (0, 1) # rest"
proof -
  assume "2 \<le> n"
  then have "[0 ..< n] = 0 # [Suc 0 ..< n]" "[Suc 0 ..< n] = Suc 0 # [Suc (Suc 0) ..< n]"
    by (simp_all add: upt_conv_Cons)
  then show ?thesis
    unfolding index_pairs_eq position_pairs_def by simp
qed

lemma within_too_small:
  "2 \<le> length nums \<Longrightarrow> d < length nums - 1 \<Longrightarrow> solution_exists_within d A nums t = None"
proof (induction d arbitrary: nums)
  case 0
  then obtain rest where "index_pairs (length nums) = (0, 1) # rest"
    using index_pairs_first by blast
  with 0 show ?case by (simp add: results_def)
next
  case (Suc d)
  then obtain rest where rest: "index_pairs (length nums) = (0, 1) # rest"
    using index_pairs_first by blast
  then have "(0, 1) \<in> set (index_pairs (length nums))"
    by simp
  from length_recursive_argument [OF this]
  have "solution_exists_within d A (new_nums nums 0 1 @ [val]) t = None" for val
    using Suc.prems by (intro Suc.IH) simp_all
  with Suc.prems rest show ?case by (simp add: results_def)
qed

subsection \<open>The standalone solver agrees with the existence check\<close>

lemma solve_successes: "solve A nums prev t = (successes A nums prev t \<noteq> [])"
proof (induction A nums prev t rule: solve.induct)
  case (1 A nums prev t)
  show ?case
  proof (cases "length nums = 1")
    case True
    then show ?thesis
      by (subst solve.simps, subst successes_rec) simp
  next
    case False
    let ?inner = "\<lambda>i j. concat (map (\<lambda>(val, output).
        successes A (new_nums nums i j @ [val]) (prev @ output) t) (attempts A (nums ! i) (nums ! j)))"
    have inner: "list_ex (\<lambda>(val, output). solve A (new_nums nums i j @ [val]) (prev @ output) t)
        (attempts A (nums ! i) (nums ! j)) = (?inner i j \<noteq> [])"
      if "(i, j) \<in> set (index_pairs (length nums))" for i j
      by (rule list_ex_concat) (auto simp: "1.IH" [OF False that refl])
    have outer: "list_ex (\<lambda>(i, j). list_ex (\<lambda>(val, output).
          solve A (new_nums nums i j @ [val]) (prev @ output) t)
        (attempts A (nums ! i) (nums ! j))) (index_pairs (length nums))
        = (concat (map (\<lambda>(i, j). ?inner i j) (index_pairs (length nums))) \<noteq> [])"
      by (rule list_ex_concat) (auto simp: inner)
    from False show ?thesis
      by (subst solve.simps, subst successes_rec) (simp add: outer)
  qed
qed

section \<open>Properties\<close>

subsection \<open>Sequences of length one\<close>

text \<open>
  C7: on a sequence of length exactly one the existence check returns true if and only if
  \<^verbatim>\<open>fabs(nums[0] - target) < 1e-8\<close>, the absolute difference of the only value and the
  target being strictly below \<^verbatim>\<open>1e-8\<close>.
\<close>

theorem solution_exists_singleton:
  "length nums = 1 \<Longrightarrow>
   solution_exists A nums t = d_less A (d_fabs A (d_sub A (nums ! 0) t)) (d_eps A)"
  by (subst solution_exists.simps) (simp add: near_target_def)

theorem solution_exists_singleton_witness:
  "length [Fin 24] = 1 \<and>
   solution_exists exact [Fin 24] (Fin (24 + 1 / 1000000000))
     = d_less exact (d_fabs exact (d_sub exact ([Fin 24] ! 0) (Fin (24 + 1 / 1000000000)))) (d_eps exact) \<and>
   solution_exists exact [Fin 24] (Fin (24 + 1 / 1000000000)) \<and>
   \<not> solution_exists exact [Fin 24] (Fin (24 + 1 / 100000000))"
  using solution_exists_singleton [of "[Fin 24]" exact "Fin (24 + 1 / 1000000000)"]
    solution_exists_singleton [of "[Fin 24]" exact "Fin (24 + 1 / 100000000)"]
  by (simp add: exact_def x_sub_def)

subsection \<open>Replay and shape of the returned traces\<close>




text \<open>
  C8: a trace returned by the first-solution search or collected by the all-solutions
  search on a sequence of \<open>n \<ge> 1\<close> values has \<open>4 * (n - 1)\<close> tokens, and is made of
  \<open>n - 1\<close> groups of four: first operand, second operand, result, operator symbol.
\<close>

theorem returned_traces_length:
  assumes "1 \<le> length nums"
    and "solve_first A nums [] t fs = (True, tr) \<or> tr \<in> set (solve_all A nums [] t [])"
  shows "length tr = 4 * (length nums - 1) \<and>
    (\<exists>steps. length steps = length nums - 1 \<and>
       tr = concat (map (\<lambda>(op, a, b). step_tokens A op a b) steps))"
proof -
  from assms(2) have "tr \<in> set (successes A nums [] t)"
    by (rule trace_is_success)
  then obtain v where "(tr, v) \<in> set (reduction_paths A nums [])"
    by (auto simp: successes_paths)
  from reduction_paths_steps [OF this] obtain steps
    where steps: "length steps = length nums - 1"
      "tr = concat (map (\<lambda>(op, a, b). step_tokens A op a b) steps)"
    by auto
  from steps have "length tr = 4 * (length nums - 1)"
    by (simp add: length_concat_steps)
  with steps show ?thesis by blast
qed

theorem returned_traces_length_witness:
  "1 \<le> length [Fin 2, Fin 3, Fin 4] \<and>
   [''2.000000'', ''4.000000'', ''8.000000'', ''*'',
    ''3.000000'', ''8.000000'', ''24.000000'', ''*'']
     \<in> set (solve_all exact [Fin 2, Fin 3, Fin 4] [] (Fin 24) []) \<and>
   length [''2.000000'', ''4.000000'', ''8.000000'', ''*'',
           ''3.000000'', ''8.000000'', ''24.000000'', ''*''] = 4 * (length [Fin 2, Fin 3, Fin 4] - 1)"
proof -
  have len: "1 \<le> length [Fin 2, Fin 3, Fin 4]"
    by simp
  have run: "[''2.000000'', ''4.000000'', ''8.000000'', ''*'',
      ''3.000000'', ''8.000000'', ''24.000000'', ''*'']
     \<in> set (solve_all exact [Fin 2, Fin 3, Fin 4] [] (Fin 24) [])"
    by code_simp
  from returned_traces_length [OF len disjI2, OF run] len run show ?thesis
    by blast
qed

subsection \<open>Consistency of the three modes\<close>


text \<open>
  C3: when a solution exists, the first-solution search returns true and stores the trace
  of the first path, in the enumeration order of the specification (position pairs
  \<open>i < j\<close> with \<open>i\<close> ascending outside and \<open>j\<close> ascending inside, and for each pair Add,
  Multiply, SubtractForward, DivideForward, SubtractReverse, DivideReverse), that ends
  within the tolerance of the target; it is the first trace the all-solutions search
  collects.
\<close>

theorem find_first_is_first_in_order:
  assumes "solution_exists A nums t"
  shows "\<exists>v. List.find (\<lambda>(tr, v). near_target A v t) (reduction_paths A nums prev)
        = Some (snd (solve_first A nums prev t fs), v) \<and>
      fst (solve_first A nums prev t fs) \<and>
      snd (solve_first A nums prev t fs) = hd (solve_all A nums prev t [])"
proof -
  from assms obtain tr rest where succ: "successes A nums prev t = tr # rest"
    by (auto simp: solution_exists_successes [of A nums t prev] neq_Nil_conv)
  then obtain p ps
    where ps: "filter (\<lambda>(tr, v). near_target A v t) (reduction_paths A nums prev) = p # ps"
      and p: "fst p = tr"
    by (auto simp: successes_def)
  have "List.find (\<lambda>(tr, v). near_target A v t) (reduction_paths A nums prev) = Some (tr, snd p)"
    using ps p by (simp add: find_filter prod_eq_iff)
  moreover have "solve_first A nums prev t fs = (True, tr)"
    by (simp add: solve_first_successes succ)
  moreover have "hd (solve_all A nums prev t []) = tr"
    by (simp add: solve_all_successes succ)
  ultimately show ?thesis by simp
qed

theorem find_first_is_first_in_order_witness:
  "solution_exists exact [Fin 2, Fin 3, Fin 4] (Fin 24) \<and>
   List.find (\<lambda>(tr, v). near_target exact v (Fin 24)) (reduction_paths exact [Fin 2, Fin 3, Fin 4] [])
     = Some ([''2.000000'', ''3.000000'', ''6.000000'', ''*'',
              ''4.000000'', ''6.000000'', ''24.000000'', ''*''], Fin 24) \<and>
   solve_first exact [Fin 2, Fin 3, Fin 4] [] (Fin 24) []
     = (True, hd (solve_all exact [Fin 2, Fin 3, Fin 4] [] (Fin 24) []))"
proof -
  have ex: "solution_exists exact [Fin 2, Fin 3, Fin 4] (Fin 24)"
    by code_simp
  have run: "solve_first exact [Fin 2, Fin 3, Fin 4] [] (Fin 24) []
     = (True, [''2.000000'', ''3.000000'', ''6.000000'', ''*'',
               ''4.000000'', ''6.000000'', ''24.000000'', ''*''])"
    by code_simp
  from find_first_is_first_in_order [OF ex, of "[]" "[]"] obtain v
    where v: "List.find (\<lambda>(tr, v). near_target exact v (Fin 24))
          (reduction_paths exact [Fin 2, Fin 3, Fin 4] [])
        = Some ([''2.000000'', ''3.000000'', ''6.000000'', ''*'',
                 ''4.000000'', ''6.000000'', ''24.000000'', ''*''], v)"
      and hd: "snd (solve_first exact [Fin 2, Fin 3, Fin 4] [] (Fin 24) [])
        = hd (solve_all exact [Fin 2, Fin 3, Fin 4] [] (Fin 24) [])"
    unfolding run by auto
  have "List.find (\<lambda>(tr, v). near_target exact v (Fin 24))
          (reduction_paths exact [Fin 2, Fin 3, Fin 4] [])
        = Some ([''2.000000'', ''3.000000'', ''6.000000'', ''*'',
                 ''4.000000'', ''6.000000'', ''24.000000'', ''*''], Fin 24)"
    by code_simp
  with ex run hd show ?thesis by simp
qed

subsection \<open>Repeated calls, empty input, recursion depth\<close>

lemma find_all_solutions_appends:
  "get_all_solutions (find_all_solutions A S)
     = get_all_solutions S @ successes A (values_of A S) [] (target S)"
  by (simp add: find_all_solutions_def get_all_solutions_def solve_all_successes)

lemma find_all_solutions_frame:
  "values_of A (find_all_solutions A S) = values_of A S"
  "target (find_all_solutions A S) = target S"
  by (simp_all add: find_all_solutions_def values_of_def)

text \<open>
  C4: a second call of \<^verbatim>\<open>find_all_solutions\<close> on the same object, with the same numbers
  and target, appends its traces to those of the first call: after two calls on
  \<^verbatim>\<open>Solution({4, 6}, 24)\<close> the member \<^verbatim>\<open>solutions\<close> holds the one solution twice.
\<close>

theorem find_all_solutions_twice:
  "get_all_solutions (find_all_solutions exact (Solution2 [4, 6] (Fin 24)))
     = [[''4.000000'', ''6.000000'', ''24.000000'', ''*'']] \<and>
   get_all_solutions (find_all_solutions exact (find_all_solutions exact (Solution2 [4, 6] (Fin 24))))
     = [[''4.000000'', ''6.000000'', ''24.000000'', ''*''],
        [''4.000000'', ''6.000000'', ''24.000000'', ''*'']]"
  by code_simp

lemma find_all_solutions_repeated:
  "get_all_solutions (find_all_solutions A (find_all_solutions A S))
     = get_all_solutions S @ successes A (values_of A S) [] (target S)
         @ successes A (values_of A S) [] (target S)"
  by (simp add: find_all_solutions_appends find_all_solutions_frame)

text \<open>
  C6 as the code has it: on an empty input sequence no error is raised. The existence
  check returns false, the first-solution search returns false and leaves the object
  unchanged, and the all-solutions search leaves the object unchanged.
\<close>

theorem empty_input_no_solution:
  assumes "numbers S = []"
  shows "is_valid_input A S = False \<and> find_first_solution A S = (False, S) \<and>
    find_all_solutions A S = S"
proof -
  have "values_of A S = []"
    using assms by (simp add: values_of_def)
  moreover have "successes A [] prev t = []" for prev t
    by (subst successes_rec) (simp add: index_pairs_small)
  ultimately show ?thesis
    by (simp add: is_valid_input_def find_first_solution_def find_all_solutions_def
        solution_exists_successes [of A _ _ "[]"] solve_first_successes solve_all_successes)
qed

theorem empty_input_no_solution_witness:
  "numbers (Solution2 [] (Fin 24)) = [] \<and>
   is_valid_input exact (Solution2 [] (Fin 24)) = False \<and>
   find_first_solution exact (Solution2 [] (Fin 24)) = (False, Solution2 [] (Fin 24)) \<and>
   find_all_solutions exact (Solution2 [] (Fin 24)) = Solution2 [] (Fin 24)"
proof -
  have "numbers (Solution2 [] (Fin 24)) = []"
    by (simp add: Solution2_def)
  from this empty_input_no_solution [OF this, of exact] show ?thesis
    by simp
qed

text \<open>
  The claim as stated fails: on the empty sequence the three operations return the
  results they return on the unsolvable sequence \<open>[1, 1]\<close>, the normal "no solution".
\<close>

theorem empty_input_counterexample:
  "is_valid_input exact (Solution2 [] (Fin 24)) = is_valid_input exact (Solution2 [1, 1] (Fin 24)) \<and>
   is_valid_input exact (Solution2 [] (Fin 24)) = False \<and>
   fst (find_first_solution exact (Solution2 [] (Fin 24))) = False \<and>
   get_first_solution (snd (find_first_solution exact (Solution2 [] (Fin 24)))) = [] \<and>
   get_all_solutions (find_all_solutions exact (Solution2 [] (Fin 24))) = []"
  by code_simp

text \<open>
  C9: every recursive call is made on a sequence exactly one element shorter than the
  caller's, and on a sequence of \<open>n \<ge> 1\<close> values the existence check completes within
  \<open>n - 1\<close> nested calls (and, for \<open>n \<ge> 2\<close>, within no fewer).
\<close>

theorem recursion_depth_bound:
  "((i, j) \<in> set (index_pairs (length nums)) \<longrightarrow>
      length (new_nums nums i j @ [val]) = length nums - 1) \<and>
   (1 \<le> length nums \<longrightarrow>
      solution_exists_within (length nums - 1) A nums t = Some (solution_exists A nums t)) \<and>
   (2 \<le> length nums \<and> d < length nums - 1 \<longrightarrow> solution_exists_within d A nums t = None)"
proof (intro conjI impI)
  assume "(i, j) \<in> set (index_pairs (length nums))"
  then show "length (new_nums nums i j @ [val]) = length nums - 1"
    by (rule length_recursive_argument)
next
  show "solution_exists_within (length nums - 1) A nums t = Some (solution_exists A nums t)"
    by (rule within_enough) simp
next
  assume "2 \<le> length nums \<and> d < length nums - 1"
  then show "solution_exists_within d A nums t = None"
    by (intro within_too_small) simp_all
qed

theorem recursion_depth_bound_witness:
  "(0, 1) \<in> set (index_pairs (length [Fin 5, Fin 5, Fin 3, Fin 2])) \<and>
   length (new_nums [Fin 5, Fin 5, Fin 3, Fin 2] 0 1 @ [Fin 10])
     = length [Fin 5, Fin 5, Fin 3, Fin 2] - 1 \<and>
   1 \<le> length [Fin 5, Fin 5, Fin 3, Fin 2] \<and>
   solution_exists_within (length [Fin 5, Fin 5, Fin 3, Fin 2] - 1) exact
       [Fin 5, Fin 5, Fin 3, Fin 2] (Fin 24)
     = Some (solution_exists exact [Fin 5, Fin 5, Fin 3, Fin 2] (Fin 24)) \<and>
   (2 \<le> length [Fin 5, Fin 5, Fin 3, Fin 2] \<and> 2 < length [Fin 5, Fin 5, Fin 3, Fin 2] - 1) \<and>
   solution_exists_within 2 exact [Fin 5, Fin 5, Fin 3, Fin 2] (Fin 24) = None"
proof -
  have pair: "(0, 1) \<in> set (index_pairs (length [Fin 5, Fin 5, Fin 3, Fin 2]))"
    by code_simp
  have one: "1 \<le> length [Fin 5, Fin 5, Fin 3, Fin 2]"
    by simp
  have two: "2 \<le> length [Fin 5, Fin 5, Fin 3, Fin 2] \<and> 2 < length [Fin 5, Fin 5, Fin 3, Fin 2] - 1"
    by simp
  from recursion_depth_bound [of 0 1 "[Fin 5, Fin 5, Fin 3, Fin 2]" "Fin 10" exact "Fin 24" 2]
    pair one two
  show ?thesis by blast
qed

text \<open>
  C10 as the code has it: a call of \<^verbatim>\<open>find_first_solution\<close> that returns false leaves
  the member \<^verbatim>\<open>first_solution\<close>, and the whole object, unchanged, so
  \<^verbatim>\<open>get_first_solution\<close> still returns what was stored before the call; and a call that
  returns true stores the empty trace exactly when the sequence has length one.
\<close>

theorem find_first_solution_false_unchanged:
  "(fst (find_first_solution A S) = False \<longrightarrow>
      get_first_solution (snd (find_first_solution A S)) = get_first_solution S \<and>
      snd (find_first_solution A S) = S) \<and>
   (fst (find_first_solution A S') \<longrightarrow>
      (get_first_solution (snd (find_first_solution A S')) = [] \<longleftrightarrow> length (numbers S') = 1))"
proof (rule conjI; rule impI)
  assume "fst (find_first_solution A S) = False"
  then show "get_first_solution (snd (find_first_solution A S)) = get_first_solution S \<and>
      snd (find_first_solution A S) = S"
    by (auto simp: find_first_solution_def solve_first_successes split: list.splits)
next
  assume "fst (find_first_solution A S')"
  then obtain tr rest where succ: "successes A (values_of A S') [] (target S') = tr # rest"
    by (auto simp: find_first_solution_def solve_first_successes split: list.splits)
  then have stored: "get_first_solution (snd (find_first_solution A S')) = tr"
    by (simp add: find_first_solution_def solve_first_successes get_first_solution_def)
  from succ have "tr \<in> set (successes A (values_of A S') [] (target S'))"
    by simp
  then obtain v where "(tr, v) \<in> set (reduction_paths A (values_of A S') [])"
    by (auto simp: successes_paths)
  from reduction_paths_steps [OF this]
  have len: "length tr = 4 * (length (numbers S') - 1)"
    by (auto simp: length_concat_steps values_of_def)
  have "successes A [] prev t = []" for prev t
    by (subst successes_rec) (simp add: index_pairs_small)
  with succ have "numbers S' \<noteq> []"
    by (auto simp: values_of_def)
  then have "0 < length (numbers S')"
    by simp
  with len have "length tr = 0 \<longleftrightarrow> length (numbers S') = 1"
    by arith
  then have "tr = [] \<longleftrightarrow> length (numbers S') = 1"
    by simp
  with stored show "get_first_solution (snd (find_first_solution A S')) = []
      \<longleftrightarrow> length (numbers S') = 1"
    by simp
qed

theorem find_first_solution_false_unchanged_witness:
  "fst (find_first_solution exact
      ((snd (find_first_solution exact (Solution2 [4, 6] (Fin 24))))\<lparr>numbers := [1, 1]\<rparr>)) = False \<and>
   get_first_solution (snd (find_first_solution exact
      ((snd (find_first_solution exact (Solution2 [4, 6] (Fin 24))))\<lparr>numbers := [1, 1]\<rparr>)))
     = [''4.000000'', ''6.000000'', ''24.000000'', ''*''] \<and>
   fst (find_first_solution exact (Solution2 [24] (Fin 24))) \<and>
   get_first_solution (snd (find_first_solution exact (Solution2 [24] (Fin 24)))) = [] \<and>
   length (numbers (Solution2 [24] (Fin 24) :: xval Solution)) = 1"
proof -
  let ?S = "(snd (find_first_solution exact (Solution2 [4, 6] (Fin 24))))\<lparr>numbers := [1, 1]\<rparr>"
  let ?S' = "Solution2 [24] (Fin 24) :: xval Solution"
  have fails: "fst (find_first_solution exact ?S) = False"
    by code_simp
  have before: "get_first_solution ?S = [''4.000000'', ''6.000000'', ''24.000000'', ''*'']"
    by code_simp
  have succeeds: "fst (find_first_solution exact ?S')"
    by code_simp
  have one: "length (numbers ?S') = 1"
    by (simp add: Solution2_def)
  from find_first_solution_false_unchanged [of exact ?S ?S'] fails before succeeds one
  show ?thesis by simp
qed

text \<open>
  The claim as stated fails in its last words, that the stored trace is empty only if no
  earlier call succeeded: \<^verbatim>\<open>Solution({24}, 24)\<close> succeeds and stores the empty trace, and
  after \<^verbatim>\<open>numbers = {1}\<close> the next call fails and leaves it empty.
\<close>

theorem first_solution_empty_after_success:
  "fst (find_first_solution exact (Solution2 [24] (Fin 24))) \<and>
   fst (find_first_solution exact
      ((snd (find_first_solution exact (Solution2 [24] (Fin 24))))\<lparr>numbers := [1]\<rparr>)) = False \<and>
   get_first_solution (snd (find_first_solution exact
      ((snd (find_first_solution exact (Solution2 [24] (Fin 24))))\<lparr>numbers := [1]\<rparr>))) = []"
  by code_simp

subsection \<open>Division by zero\<close>

text \<open>
  None of the traversals tests a divisor: the quotients \<open>a / b\<close> and \<open>b / a\<close> are tried
  for every pair. On \<open>{4, 0, 1}\<close> with target \<open>0\<close> the all-solutions search collects,
  among others, the trace of \<open>4 / 0 = inf\<close>, \<open>1 / inf = 0\<close>.
\<close>

lemma quotient_by_zero_collected:
  "[''4.000000'', ''0.000000'', ''inf'', ''/'', ''1.000000'', ''inf'', ''0.000000'', ''/'']
     \<in> set (solve_all exact [Fin 4, Fin 0, Fin 1] [] (Fin 0) [])"
  by code_simp

end
